theory Spec2Isabelle
  imports Complex_Main
begin

section \<open>Numbers and strings of the host language\<close>

text \<open>
  The game keeps counts and grid indices in JavaScript numbers and builds its dictionary
  keys, coin ids and snapshots by string interpolation. Counts and indices are modelled
  as mathematical integers (\<open>int\<close>, \<open>nat\<close> for an array length): the embedding is exact
  wherever the double is an integer below \<open>2^53\<close> in magnitude, which is where the
  program's own values live (grid indices of latitudes and longitudes, array lengths).
  A string is a list of code units below 256.
\<close>

definition digitChar :: "nat \<Rightarrow> char" where
  "digitChar d = ''0123456789'' ! d"

definition isDigit :: "char \<Rightarrow> bool" where
  "isDigit c = (c \<in> set ''0123456789'')"

definition digitVal :: "char \<Rightarrow> nat" where
  "digitVal c = of_char c - 48"

text \<open>Decimal rendering of a non-negative integer, most significant digit first.\<close>

function digitsOf :: "nat \<Rightarrow> string" where
  "digitsOf n = (if n < 10 then [digitChar n] else digitsOf (n div 10) @ [digitChar (n mod 10)])"
  by pat_completeness auto
termination
  by (relation "measure (\<lambda>n. n)") auto

declare digitsOf.simps [simp del]

text \<open>\<open>`${n}`\<close> for an integer \<open>n\<close>: a minus sign and the decimal digits.\<close>

definition intToString :: "int \<Rightarrow> string" where
  "intToString n = (if n < 0 then CHR ''-'' # digitsOf (nat (- n)) else digitsOf (nat n))"

text \<open>
  A value that a \<open>number\<close>-typed field of the program can hold at run time and that this
  embedding tracks: an integer, \<open>NaN\<close>, or \<open>undefined\<close> (a destructured array slot that
  does not exist).
\<close>

datatype number = Num int | NaN | Undefined

definition numberToString :: "number \<Rightarrow> string" where
  "numberToString x = (case x of Num n \<Rightarrow> intToString n | NaN \<Rightarrow> ''NaN'' | Undefined \<Rightarrow> ''undefined'')"

text \<open>\<open>s.split(c)\<close> for a one-character separator: always at least one piece.\<close>

fun splitOn :: "char \<Rightarrow> string \<Rightarrow> string list" where
  "splitOn sep [] = [[]]"
| "splitOn sep (c # cs) =
     (if c = sep then [] # splitOn sep cs
      else (case splitOn sep cs of [] \<Rightarrow> [[c]] | w # ws \<Rightarrow> (c # w) # ws))"

text \<open>White space that the string-to-number conversion strips at both ends.\<close>

definition isWhiteSpace :: "char \<Rightarrow> bool" where
  "isWhiteSpace c = (of_char c \<in> {9, 10, 11, 12, 13, 32, 160 :: nat})"

definition strTrim :: "string \<Rightarrow> string" where
  "strTrim s = rev (dropWhile isWhiteSpace (rev (dropWhile isWhiteSpace s)))"

definition isDigits :: "string \<Rightarrow> bool" where
  "isDigits s = (s \<noteq> [] \<and> list_all isDigit s)"

definition digitsValue :: "string \<Rightarrow> nat" where
  "digitsValue s = foldl (\<lambda>acc c. 10 * acc + digitVal c) 0 s"

text \<open>
  The grammar of numeric string literals (\<open>StrNumericLiteral\<close> of the language
  standard): a signed decimal literal with optional fraction and exponent, \<open>Infinity\<close>,
  or an unsigned binary, octal or hexadecimal integer.
\<close>

fun isExponentPart :: "string \<Rightarrow> bool" where
  "isExponentPart [] = False"
| "isExponentPart (e # r) =
     ((e = CHR ''e'' \<or> e = CHR ''E'') \<and>
      (case r of [] \<Rightarrow> False
       | c # r' \<Rightarrow> if c = CHR ''+'' \<or> c = CHR ''-'' then isDigits r' else isDigits r))"

definition isUnsignedDecimalLiteral :: "string \<Rightarrow> bool" where
  "isUnsignedDecimalLiteral s =
     (s = ''Infinity'' \<or>
      (let a = takeWhile isDigit s; r = dropWhile isDigit s in
         case r of [] \<Rightarrow> a \<noteq> []
         | c # r2 \<Rightarrow>
             if c = CHR ''.'' then
               (let b = takeWhile isDigit r2; r3 = dropWhile isDigit r2 in
                  (a \<noteq> [] \<or> b \<noteq> []) \<and> (r3 = [] \<or> isExponentPart r3))
             else a \<noteq> [] \<and> isExponentPart r))"

definition isDecimalLiteral :: "string \<Rightarrow> bool" where
  "isDecimalLiteral s =
     (case s of [] \<Rightarrow> False
      | c # r \<Rightarrow> if c = CHR ''+'' \<or> c = CHR ''-'' then isUnsignedDecimalLiteral r
                 else isUnsignedDecimalLiteral s)"

definition isNonDecimalIntegerLiteral :: "string \<Rightarrow> bool" where
  "isNonDecimalIntegerLiteral s =
     (case s of
        z # x # r \<Rightarrow>
          z = CHR ''0'' \<and> r \<noteq> [] \<and>
          ((x \<in> set ''xX'' \<and> list_all (\<lambda>c. c \<in> set ''0123456789abcdefABCDEF'') r) \<or>
           (x \<in> set ''oO'' \<and> list_all (\<lambda>c. c \<in> set ''01234567'') r) \<or>
           (x \<in> set ''bB'' \<and> list_all (\<lambda>c. c \<in> set ''01'') r))
      | _ \<Rightarrow> False)"

definition isNumericLiteral :: "string \<Rightarrow> bool" where
  "isNumericLiteral s = (isDecimalLiteral s \<or> isNonDecimalIntegerLiteral s)"

text \<open>
  \<open>Number(s)\<close> on a string. The blank string is \<open>0\<close>; an optionally signed run of
  decimal digits is that integer; a string outside the grammar is \<open>NaN\<close>. A literal
  of the grammar that is not a plain integer (a fraction, an exponent, a radix prefix,
  \<open>Infinity\<close>) denotes a double that this embedding does not track: the result is
  \<open>None\<close> there, and everything computed from it is \<open>None\<close> as well.
\<close>

definition Number :: "string \<Rightarrow> number option" where
  "Number s =
     (let t = strTrim s in
        if t = [] then Some (Num 0)
        else if isDigits t then Some (Num (int (digitsValue t)))
        else if hd t = CHR ''-'' \<and> isDigits (tl t) then Some (Num (- int (digitsValue (tl t))))
        else if hd t = CHR ''+'' \<and> isDigits (tl t) then Some (Num (int (digitsValue (tl t))))
        else if isNumericLiteral t then None
        else Some NaN)"

section \<open>The memento of a cache\<close>

text \<open>A grid cell, as the board hands it out: two integer indices.\<close>

record Cell =
  i :: int
  j :: int

text \<open>
  \<open>class Geocache implements Momento<string>\<close>: the three fields are numbers at
  construction and whatever the parsed snapshot yields after \<open>fromMomento\<close>.
\<close>

record Geocache =
  i :: number
  j :: number
  numCoins :: number

definition toMomento :: "Geocache \<Rightarrow> string" where
  "toMomento g =
     numberToString (Geocache.i g) @ '','' @ numberToString (Geocache.j g) @ '','' @
     numberToString (numCoins g)"

text \<open>
  Slot \<open>k\<close> of \<open>momento.split(",").map(Number)\<close> under array destructuring: the
  converted piece, or \<open>undefined\<close> when the array is shorter. Pieces after the third are
  converted and dropped by the source; they have no effect and are not looked at here.
\<close>

definition slot :: "string list \<Rightarrow> nat \<Rightarrow> number option" where
  "slot parts k = (if k < length parts then Number (parts ! k) else Some Undefined)"

definition fromMomento :: "Geocache \<Rightarrow> string \<Rightarrow> Geocache option" where
  "fromMomento g momento =
     (let parts = splitOn CHR '','' momento in
        case slot parts 0 of None \<Rightarrow> None
        | Some a \<Rightarrow>
            (case slot parts 1 of None \<Rightarrow> None
             | Some b \<Rightarrow>
                 (case slot parts 2 of None \<Rightarrow> None
                  | Some c \<Rightarrow> Some (g\<lparr>Geocache.i := a, Geocache.j := b, numCoins := c\<rparr>))))"

section \<open>Coins, caches and the game state\<close>

text \<open>
  \<open>interface Coin\<close> and \<open>interface Cache\<close>. Their field \<open>id\<close> is written \<open>coin_id\<close> and
  \<open>cache_id\<close> here, \<open>id\<close> being the identity function of the logic.
\<close>

record Coin =
  coin_id :: string
  originatingCacheId :: string

record Cache =
  cell :: Cell
  coins :: "Coin list"
  cache_id :: string

text \<open>
  The module-level variables of the game that the cache logic reads and writes:
  \<open>playerCoins\<close>, \<open>playerLocation\<close>, the array \<open>cacheLocations\<close> and the dictionary
  \<open>geocacheMementos\<close>. The type \<open>'p\<close> is the type of map points (\<open>LatLng\<close>).
\<close>

record 'p game =
  playerCoins :: int
  playerLocation :: 'p
  cacheLocations :: "Cache list"
  geocacheMementos :: "string \<rightharpoonup> string"

text \<open>
  What the cache logic takes from outside: \<open>luck\<close> is the imported deterministic
  value generator (\<open>luck.ts\<close>), read as an exact rational.
  \<open>candidatePoint player a d\<close> is the point that the pass computes from the player's
  location and the two luck values \<open>a\<close> (angle) and \<open>d\<close> (distance) by floating-point
  trigonometry; \<open>isCacheVisible\<close> is the floating-point distance test of the source;
  \<open>boardCell\<close> is the pair of indices of the cell that \<open>board.getCellForPoint\<close> returns.
\<close>

record 'p env =
  luck :: "string \<Rightarrow> rat"
  candidatePoint :: "'p \<Rightarrow> rat \<Rightarrow> rat \<Rightarrow> 'p"
  isCacheVisible :: "'p \<Rightarrow> 'p \<Rightarrow> bool"
  boardCell :: "'p \<Rightarrow> Cell"

definition generateNumberOfCoins :: "(string \<Rightarrow> rat) \<Rightarrow> string \<Rightarrow> int" where
  "generateNumberOfCoins lk cacheId = \<lfloor>lk (cacheId @ '',coins'') * 10 + 1\<rfloor>"

text \<open>The loop test \<open>j < numCoins\<close>: false against \<open>NaN\<close> and \<open>undefined\<close>.\<close>

definition below :: "nat \<Rightarrow> number \<Rightarrow> bool" where
  "below k x = (case x of Num n \<Rightarrow> int k < n | NaN \<Rightarrow> False | Undefined \<Rightarrow> False)"

definition newCoin :: "Cell \<Rightarrow> string \<Rightarrow> nat \<Rightarrow> Coin" where
  "newCoin c cacheId k =
     \<lparr>coin_id = intToString (Cell.i c) @ '':'' @ intToString (Cell.j c) @ ''#'' @ intToString (int k),
      originatingCacheId = cacheId\<rparr>"

text \<open>\<open>for (let j = 0; j < numCoins; j++) coins.push({...})\<close>, from counter \<open>k\<close> on.\<close>

function coinLoop :: "Cell \<Rightarrow> string \<Rightarrow> number \<Rightarrow> nat \<Rightarrow> Coin list \<Rightarrow> Coin list" where
  "coinLoop c cacheId n k acc =
     (if below k n then coinLoop c cacheId n (Suc k) (acc @ [newCoin c cacheId k]) else acc)"
  by pat_completeness auto
termination
  by (relation "measure (\<lambda>(c, cacheId, n, k, acc). case n of Num m \<Rightarrow> nat m - k | _ \<Rightarrow> 0)")
     (auto simp: below_def split: number.splits)

declare coinLoop.simps [simp del]

definition cellKey :: "Cell \<Rightarrow> string" where
  "cellKey c = intToString (Cell.i c) @ '','' @ intToString (Cell.j c)"

text \<open>\<open>new Geocache(cache.cell.i, cache.cell.j, cache.coins.length).toMomento()\<close>\<close>

definition snapshotOf :: "Cache \<Rightarrow> string" where
  "snapshotOf c =
     toMomento \<lparr>Geocache.i = Num (Cell.i (cell c)), j = Num (Cell.j (cell c)),
                numCoins = Num (int (length (coins c)))\<rparr>"

text \<open>
  The first loop of \<open>updateCacheLocations\<close>: every live cache writes the snapshot of its
  coin count under the key of its cell, in array order.
\<close>

fun saveMementos :: "Cache list \<Rightarrow> (string \<rightharpoonup> string) \<Rightarrow> (string \<rightharpoonup> string)" where
  "saveMementos [] m = m"
| "saveMementos (c # cs) m = saveMementos cs (m(cellKey (cell c) \<mapsto> snapshotOf c))"

text \<open>
  The coin count chosen for a cell: \<open>if (geocacheMementos[key])\<close> is true for a stored
  non-empty string, which is then read by \<open>fromMomento\<close>; otherwise the count is
  generated. \<open>None\<close> when the stored string holds a number outside the embedding.
\<close>

definition chooseNumCoins ::
  "(string \<Rightarrow> rat) \<Rightarrow> (string \<rightharpoonup> string) \<Rightarrow> Cell \<Rightarrow> string \<Rightarrow> number option" where
  "chooseNumCoins lk m c cacheId =
     (case m (cellKey c) of
        None \<Rightarrow> Some (Num (generateNumberOfCoins lk cacheId))
      | Some momento \<Rightarrow>
          if momento = [] then Some (Num (generateNumberOfCoins lk cacheId))
          else map_option numCoins
                 (fromMomento \<lparr>Geocache.i = Num (Cell.i c), j = Num (Cell.j c), numCoins = Num 0\<rparr>
                    momento))"

text \<open>The identifier \<open>`cache-${i}`\<close> of round \<open>i\<close> of the second loop.\<close>

definition cacheIdOf :: "nat \<Rightarrow> string" where
  "cacheIdOf k = ''cache-'' @ intToString (int k)"

text \<open>The point \<open>cacheLocation\<close> that a round computes around the player.\<close>

definition candidateLocation :: "'p env \<Rightarrow> 'p \<Rightarrow> string \<Rightarrow> 'p" where
  "candidateLocation E player cacheId =
     candidatePoint E player (luck E (cacheId @ ''-angle'')) (luck E (cacheId @ ''-distance''))"

text \<open>
  One round of the second loop, for counter \<open>k\<close>: the caches it pushes (none when the
  candidate point fails the visibility test, one otherwise).
\<close>

definition candidate ::
  "'p env \<Rightarrow> 'p \<Rightarrow> (string \<rightharpoonup> string) \<Rightarrow> nat \<Rightarrow> Cache list option" where
  "candidate E player m k =
     (let cacheId = cacheIdOf k;
          cacheLocation = candidateLocation E player cacheId
      in if isCacheVisible E cacheLocation player then
           (let c = boardCell E cacheLocation in
              case chooseNumCoins (luck E) m c cacheId of
                None \<Rightarrow> None
              | Some n \<Rightarrow> Some [\<lparr>cell = c, coins = coinLoop c cacheId n 0 [], cache_id = cacheId\<rparr>])
         else Some [])"

fun generateCaches ::
  "'p env \<Rightarrow> 'p \<Rightarrow> (string \<rightharpoonup> string) \<Rightarrow> nat list \<Rightarrow> Cache list \<Rightarrow> Cache list option" where
  "generateCaches E player m [] caches = Some caches"
| "generateCaches E player m (k # ks) caches =
     (case candidate E player m k of
        None \<Rightarrow> None
      | Some new \<Rightarrow> generateCaches E player m ks (caches @ new))"

text \<open>
  \<open>updateCacheLocations\<close>: save a snapshot of every live cache, empty the array, and
  run the loop \<open>for (let i = 0; i < 5; i++)\<close>. Markers and popups are presentation and
  are left out. \<open>None\<close> when a snapshot that the pass reads is outside the embedding.
\<close>

definition updateCacheLocations :: "'p env \<Rightarrow> 'p game \<Rightarrow> 'p game option" where
  "updateCacheLocations E s =
     (let m = saveMementos (cacheLocations s) (geocacheMementos s) in
        case generateCaches E (playerLocation s) m [0..<5] [] of
          None \<Rightarrow> None
        | Some caches \<Rightarrow> Some (s\<lparr>cacheLocations := caches, geocacheMementos := m\<rparr>))"

text \<open>
  The handlers return what they pass to \<open>alert\<close>, or the \<open>TypeError\<close> that reading
  \<open>cache.coins\<close> raises when \<open>cacheLocations[index]\<close> is \<open>undefined\<close>, together with the
  state they leave behind.
\<close>

datatype error = TypeError

definition handleCollect :: "nat \<Rightarrow> 'p game \<Rightarrow> (error + string) \<times> 'p game" where
  "handleCollect index s =
     (if index < length (cacheLocations s) then
        (let cache = cacheLocations s ! index in
           if length (coins cache) > 0 then
             (let collectedCoin = last (coins cache);
                  s' = s\<lparr>playerCoins := playerCoins s + 1,
                         cacheLocations :=
                           (cacheLocations s)[index := cache\<lparr>coins := butlast (coins cache)\<rparr>]\<rparr>
              in (Inr (''Collected a coin with ID '' @ coin_id collectedCoin @
                       ''. Player now has '' @ intToString (playerCoins s') @ '' coins.''), s'))
           else (Inr ''No coins left to collect in this cache!'', s))
      else (Inl TypeError, s))"

definition handleDeposit :: "nat \<Rightarrow> 'p game \<Rightarrow> (error + string) \<times> 'p game" where
  "handleDeposit index s =
     (if playerCoins s > 0 then
        (if index < length (cacheLocations s) then
           (let cache = cacheLocations s ! index;
                depositedCoin =
                  \<lparr>coin_id = ''cache-'' @ intToString (int index) @ ''-coin-'' @
                             intToString (int (length (coins cache))),
                   originatingCacheId = cache_id cache\<rparr>;
                cache' = cache\<lparr>coins := coins cache @ [depositedCoin]\<rparr>;
                s' = s\<lparr>playerCoins := playerCoins s - 1,
                       cacheLocations := (cacheLocations s)[index := cache']\<rparr>
            in (Inr (''Deposited a coin. Player now has '' @ intToString (playerCoins s') @
                     '' coins. Cache now has '' @ intToString (int (length (coins cache'))) @
                     '' coins.''), s'))
         else (Inl TypeError, s))
      else (Inr ''No coins available to deposit!'', s))"

text \<open>The coins in play: the player's count plus the lengths of all live coin arrays.\<close>

definition totalCoins :: "'p game \<Rightarrow> int" where
  "totalCoins s = playerCoins s + (\<Sum>c\<leftarrow>cacheLocations s. int (length (coins c)))"

section \<open>Play as a sequence of events\<close>

text \<open>
  \<open>handleGeolocationUpdate\<close> stores the reported position in \<open>playerLocation\<close> and runs
  the pass. \<open>movePlayer\<close> does the same with the position one step north, south, east or
  west of the current one.
\<close>

definition handleGeolocationUpdate :: "'p env \<Rightarrow> 'p \<Rightarrow> 'p game \<Rightarrow> 'p game option" where
  "handleGeolocationUpdate E p s = updateCacheLocations E (s\<lparr>playerLocation := p\<rparr>)"

text \<open>
  What the player can do between two passes: move, or press the collect or deposit
  button of a popup. A handler that raises leaves the state as it was.
\<close>

datatype 'p event = MoveTo 'p | Collect nat | Deposit nat

fun step :: "'p env \<Rightarrow> 'p event \<Rightarrow> 'p game \<Rightarrow> 'p game option" where
  "step E (MoveTo p) s = handleGeolocationUpdate E p s"
| "step E (Collect index) s = Some (snd (handleCollect index s))"
| "step E (Deposit index) s = Some (snd (handleDeposit index s))"

fun run :: "'p env \<Rightarrow> 'p event list \<Rightarrow> 'p game \<Rightarrow> 'p game option" where
  "run E [] s = Some s"
| "run E (e # es) s = (case step E e s of None \<Rightarrow> None | Some s' \<Rightarrow> run E es s')"

text \<open>A cell is materialized when some live cache sits in it.\<close>

definition materialized :: "Cell \<Rightarrow> 'p game \<Rightarrow> bool" where
  "materialized c s = (c \<in> cell ` set (cacheLocations s))"

text \<open>The cell is not materialized in any state that the events reach, one after the other.\<close>

fun absentAfter :: "'p env \<Rightarrow> Cell \<Rightarrow> 'p event list \<Rightarrow> 'p game \<Rightarrow> bool" where
  "absentAfter E c [] s = True"
| "absentAfter E c (e # es) s =
     (case step E e s of
        None \<Rightarrow> False
      | Some s' \<Rightarrow> \<not> materialized c s' \<and> absentAfter E c es s')"

text \<open>
  The dictionary starts empty and only the pass writes to it, so every stored string is
  the snapshot of three integers.
\<close>

definition snapshotsWellFormed :: "(string \<rightharpoonup> string) \<Rightarrow> bool" where
  "snapshotsWellFormed m =
     (\<forall>K v. m K = Some v \<longrightarrow>
        (\<exists>a b n. v = toMomento \<lparr>Geocache.i = Num a, j = Num b, numCoins = Num (int n)\<rparr>))"

text \<open>How many rounds the coin loop makes for a bound.\<close>

definition coinCount :: "number \<Rightarrow> nat" where
  "coinCount x = (case x of Num n \<Rightarrow> nat n | NaN \<Rightarrow> 0 | Undefined \<Rightarrow> 0)"

definition coinCounts :: "'p game \<Rightarrow> nat list" where
  "coinCounts s = map (\<lambda>c. length (coins c)) (cacheLocations s)"

section \<open>The grid index\<close>

text \<open>
  Modelled from the spec: the module \<open>board.ts\<close> (class \<open>Board\<close>, its flyweight
  registry and \<open>getCellForPoint\<close>) is imported by the source but is not part of it. The
  spec gives the lookup as: compute \<open>i = floor(lat / cellWidth)\<close> and
  \<open>j = floor(lng / cellWidth)\<close>, look the pair up in the flyweight registry, create and
  register on a miss. Cell records live in a store, and a reference to one is its
  position there, so that "the identical record" is equality of references.
  Coordinates and the cell width are exact rationals.
\<close>

record Board =
  tileWidth :: rat
  knownCells :: "(int \<times> int) \<rightharpoonup> nat"
  cellStore :: "Cell list"

definition newBoard :: "rat \<Rightarrow> Board" where
  "newBoard w = \<lparr>tileWidth = w, knownCells = Map.empty, cellStore = []\<rparr>"

text \<open>
  Modelled from the spec: the indices of the cell of a point, \<open>i = floor(lat / cellWidth)\<close>
  and \<open>j = floor(lng / cellWidth)\<close>; \<open>board.ts\<close>, which computes them, is missing.
\<close>

definition cellIndex :: "rat \<times> rat \<Rightarrow> Board \<Rightarrow> int \<times> int" where
  "cellIndex point b = (\<lfloor>fst point / tileWidth b\<rfloor>, \<lfloor>snd point / tileWidth b\<rfloor>)"

text \<open>
  Modelled from the spec: \<open>Board.getCellForPoint\<close> of the missing \<open>board.ts\<close> (the spec's
  \<open>cellAt\<close>) looks the indices up in the flyweight registry and, on a miss, creates the
  record and registers it. It returns the reference and the board it leaves.
\<close>

definition getCellForPoint :: "rat \<times> rat \<Rightarrow> Board \<Rightarrow> nat \<times> Board" where
  "getCellForPoint point b =
     (case knownCells b (cellIndex point b) of
        Some r \<Rightarrow> (r, b)
      | None \<Rightarrow>
          (length (cellStore b),
           b\<lparr>knownCells := (knownCells b)(cellIndex point b \<mapsto> length (cellStore b)),
             cellStore := cellStore b @
               [\<lparr>Cell.i = fst (cellIndex point b), j = snd (cellIndex point b)\<rparr>]\<rparr>))"

text \<open>A run of lookups, each on the board the previous one left.\<close>

fun lookups :: "(rat \<times> rat) list \<Rightarrow> Board \<Rightarrow> Board" where
  "lookups [] b = b"
| "lookups (p # ps) b = lookups ps (snd (getCellForPoint p b))"

text \<open>
  Every stored record is registered under its own indices at its own position, and
  every registered reference points at the record with the registered indices.
\<close>

definition boardInv :: "Board \<Rightarrow> bool" where
  "boardInv b =
     ((\<forall>r < length (cellStore b).
         knownCells b (Cell.i (cellStore b ! r), Cell.j (cellStore b ! r)) = Some r) \<and>
      (\<forall>a c r. knownCells b (a, c) = Some r \<longrightarrow>
         r < length (cellStore b) \<and> cellStore b ! r = \<lparr>Cell.i = a, j = c\<rparr>))"

section \<open>A small world for concrete runs\<close>

text \<open>
  Points are pairs of integers and a point lies in the cell with its own coordinates.
  Every candidate is visible and lands on the player's own point, except \<open>cache-1\<close>,
  whose distance value puts it one cell further along the first axis. This is the
  situation of the game itself, where all five candidates fall within a few millimetres
  of the player and so, away from a cell border, into the player's cell.
\<close>

definition exampleLuck :: "string \<Rightarrow> rat" where
  "exampleLuck key = (if key = ''cache-1-distance'' then 1 / 2 else 37 / 100)"

definition exampleEnv :: "(int \<times> int) env" where
  "exampleEnv =
     \<lparr>luck = exampleLuck,
      candidatePoint = (\<lambda>player a d. (fst player + \<lfloor>2 * d\<rfloor>, snd player)),
      isCacheVisible = (\<lambda>c player. True),
      boardCell = (\<lambda>p. \<lparr>Cell.i = fst p, j = snd p\<rparr>)\<rparr>"

definition newGame :: "(int \<times> int) game" where
  "newGame = \<lparr>playerCoins = 0, playerLocation = (5, 5), cacheLocations = [],
              geocacheMementos = Map.empty\<rparr>"

text \<open>One live cache at cell \<open>(5, 5)\<close> holding two coins; the player holds none.\<close>

definition scenarioD :: "(int \<times> int) game" where
  "scenarioD =
     \<lparr>playerCoins = 0, playerLocation = (5, 5),
      cacheLocations =
        [\<lparr>cell = \<lparr>Cell.i = 5, j = 5\<rparr>,
          coins = [\<lparr>coin_id = ''5:5#0'', originatingCacheId = ''cache-0''\<rparr>,
                   \<lparr>coin_id = ''5:5#1'', originatingCacheId = ''cache-0''\<rparr>],
          cache_id = ''cache-0''\<rparr>],
      geocacheMementos = Map.empty\<rparr>"

text \<open>The same cache after both coins were collected.\<close>

definition drained :: "(int \<times> int) game" where
  "drained =
     \<lparr>playerCoins = 2, playerLocation = (5, 5),
      cacheLocations = [\<lparr>cell = \<lparr>Cell.i = 5, j = 5\<rparr>, coins = [], cache_id = ''cache-0''\<rparr>],
      geocacheMementos = Map.empty\<rparr>"


text \<open>Observations of a state: the cells of the live caches, and the identifier and
  originating cache of each coin of one of them.\<close>

definition cellsOf :: "'p game \<Rightarrow> (int \<times> int) list" where
  "cellsOf s = map (\<lambda>c. (Cell.i (cell c), Cell.j (cell c))) (cacheLocations s)"

definition coinIds :: "nat \<Rightarrow> 'p game \<Rightarrow> (string \<times> string) list" where
  "coinIds k s = map (\<lambda>c. (coin_id c, originatingCacheId c)) (coins (cacheLocations s ! k))"

section \<open>Rendering and parsing integers\<close>

lemma digitChar_ok: "d < 10 \<Longrightarrow> isDigit (digitChar d) \<and> digitVal (digitChar d) = d"
proof -
  assume "d < 10"
  then have "d \<in> {0, 1, 2, 3, 4, 5, 6, 7, 8, 9}" by auto
  then show ?thesis
    by (auto simp: digitChar_def isDigit_def digitVal_def)
qed

lemma digitsValue_snoc: "digitsValue (s @ [c]) = 10 * digitsValue s + digitVal c"
  by (simp add: digitsValue_def)

lemma digitsOf_props:
  "digitsOf n \<noteq> [] \<and> list_all isDigit (digitsOf n) \<and> digitsValue (digitsOf n) = n"
proof (induction n rule: digitsOf.induct)
  case (1 n)
  show ?case
  proof (cases "n < 10")
    case True
    then show ?thesis
      using digitChar_ok [of n] by (simp add: digitsOf.simps [of n] digitsValue_def)
  next
    case False
    with 1 have ih: "list_all isDigit (digitsOf (n div 10))"
      "digitsValue (digitsOf (n div 10)) = n div 10" by simp_all
    have "n mod 10 < 10" by simp
    from digitChar_ok [OF this] ih False show ?thesis
      by (simp add: digitsOf.simps [of n] digitsValue_snoc)
  qed
qed

lemma isDigits_digitsOf: "isDigits (digitsOf n)"
  using digitsOf_props [of n] by (simp add: isDigits_def)

lemma isDigit_not_space: "isDigit c \<Longrightarrow> \<not> isWhiteSpace c"
  by (auto simp: isDigit_def isWhiteSpace_def)

lemma isDigit_not_comma: "isDigit c \<Longrightarrow> c \<noteq> CHR '',''"
  by (auto simp: isDigit_def)

lemma strTrim_id:
  assumes "s \<noteq> []" "\<not> isWhiteSpace (hd s)" "\<not> isWhiteSpace (last s)"
  shows "strTrim s = s"
proof -
  from assms have a: "dropWhile isWhiteSpace s = s"
    by (cases s) simp_all
  from assms have "dropWhile isWhiteSpace (rev s) = rev s"
    by (cases "rev s") (simp_all add: hd_rev)
  with a show ?thesis by (simp add: strTrim_def)
qed

lemma isDigits_ends: "isDigits s \<Longrightarrow> s \<noteq> [] \<and> isDigit (hd s) \<and> isDigit (last s)"
  by (cases s) (auto simp: isDigits_def list_all_iff)

lemma Number_digits:
  assumes "isDigits s"
  shows "Number s = Some (Num (int (digitsValue s)))"
proof -
  from isDigits_ends [OF assms] have "strTrim s = s"
    by (intro strTrim_id) (simp_all add: isDigit_not_space)
  with assms isDigits_ends [OF assms] show ?thesis
    by (simp add: Number_def)
qed

lemma Number_minus_digits:
  assumes "isDigits s"
  shows "Number (CHR ''-'' # s) = Some (Num (- int (digitsValue s)))"
proof -
  from isDigits_ends [OF assms] have e: "s \<noteq> []" "isDigit (last s)" by simp_all
  have "\<not> isWhiteSpace CHR ''-''" by (simp add: isWhiteSpace_def)
  with e have t: "strTrim (CHR ''-'' # s) = CHR ''-'' # s"
    by (intro strTrim_id) (simp_all add: isDigit_not_space)
  have "\<not> isDigits (CHR ''-'' # s)" by (simp add: isDigits_def isDigit_def)
  with t assms show ?thesis by (simp add: Number_def)
qed

lemma Number_intToString: "Number (intToString n) = Some (Num n)"
proof (cases "n < 0")
  case True
  with Number_minus_digits [OF isDigits_digitsOf [of "nat (- n)"]] digitsOf_props [of "nat (- n)"]
  show ?thesis by (simp add: intToString_def)
next
  case False
  with Number_digits [OF isDigits_digitsOf [of "nat n"]] digitsOf_props [of "nat n"]
  show ?thesis by (simp add: intToString_def)
qed

lemma intToString_no_comma: "CHR '','' \<notin> set (intToString n)"
proof -
  have "CHR '','' \<notin> set (digitsOf m)" for m
    using digitsOf_props [of m] isDigit_not_comma by (auto simp: list_all_iff)
  then show ?thesis by (simp add: intToString_def)
qed

lemma splitOn_no_sep: "sep \<notin> set a \<Longrightarrow> splitOn sep a = [a]"
  by (induction a) auto

lemma splitOn_append: "sep \<notin> set a \<Longrightarrow> splitOn sep (a @ sep # rest) = a # splitOn sep rest"
  by (induction a) auto

lemma splitOn_three:
  assumes "sep \<notin> set a" "sep \<notin> set b" "sep \<notin> set c"
  shows "splitOn sep (a @ [sep] @ b @ [sep] @ c) = [a, b, c]"
  using assms by (simp add: splitOn_append splitOn_no_sep)

lemma toMomento_ints:
  "toMomento \<lparr>Geocache.i = Num a, j = Num b, numCoins = Num n\<rparr> =
     intToString a @ [CHR '',''] @ intToString b @ [CHR '',''] @ intToString n"
  by (simp add: toMomento_def numberToString_def)

lemma fromMomento_ints:
  "fromMomento g (intToString a @ [CHR '',''] @ intToString b @ [CHR '',''] @ intToString n) =
     Some (g\<lparr>Geocache.i := Num a, Geocache.j := Num b, numCoins := Num n\<rparr>)"
  unfolding fromMomento_def
  by (simp only: splitOn_three [OF intToString_no_comma intToString_no_comma intToString_no_comma])
     (simp add: slot_def Number_intToString)

lemma fromMomento_snapshot:
  "fromMomento g (toMomento \<lparr>Geocache.i = Num a, j = Num b, numCoins = Num n\<rparr>) =
     Some \<lparr>Geocache.i = Num a, j = Num b, numCoins = Num n\<rparr>"
  by (simp only: toMomento_ints fromMomento_ints) simp

section \<open>Snapshot and restore of one cache\<close>

text \<open>
  C2. For every Geocache whose fields \<open>i\<close>, \<open>j\<close> and \<open>numCoins\<close> are integers (the
  coin count non-negative or not), the snapshot string of \<open>toMomento\<close>, read back by
  \<open>fromMomento\<close> into any freshly constructed Geocache, gives the same three fields:
  the round trip reproduces the coin count exactly.
\<close>

theorem fromMomento_toMomento:
  "fromMomento fresh (toMomento \<lparr>Geocache.i = Num a, j = Num b, numCoins = Num n\<rparr>) =
     Some \<lparr>Geocache.i = Num a, j = Num b, numCoins = Num n\<rparr>"
  by (rule fromMomento_snapshot)

section \<open>Generating a coin count\<close>



section \<open>Collecting and depositing\<close>

lemma sum_coins_update:
  "k < length cs \<Longrightarrow>
   (\<Sum>c\<leftarrow>cs[k := c']. int (length (coins c))) =
   (\<Sum>c\<leftarrow>cs. int (length (coins c))) - int (length (coins (cs ! k))) + int (length (coins c'))"
proof (induction cs arbitrary: k)
  case Nil
  then show ?case by simp
next
  case (Cons a cs)
  then show ?case by (cases k) simp_all
qed

lemma int_length_butlast: "xs \<noteq> [] \<Longrightarrow> int (length xs - Suc 0) = int (length xs) - 1"
  by (cases xs) simp_all

text \<open>
  C5. For every index of a live cache: when the cache's coin array is not empty,
  \<open>handleCollect\<close> alerts a message, adds one to the player's count and removes exactly
  one coin (the last) from that cache, leaving the other caches as they were; when the
  array is empty, it alerts "No coins left to collect in this cache!" (the report of an
  empty cache) and changes no state.
\<close>

theorem handleCollect_spec:
  assumes "index < length (cacheLocations s)"
  shows "(coins (cacheLocations s ! index) \<noteq> [] \<longrightarrow>
           (\<exists>msg. fst (handleCollect index s) = Inr msg) \<and>
           playerCoins (snd (handleCollect index s)) = playerCoins s + 1 \<and>
           length (cacheLocations (snd (handleCollect index s))) = length (cacheLocations s) \<and>
           coins (cacheLocations (snd (handleCollect index s)) ! index) =
             butlast (coins (cacheLocations s ! index)) \<and>
           length (coins (cacheLocations (snd (handleCollect index s)) ! index)) + 1 =
             length (coins (cacheLocations s ! index)) \<and>
           (\<forall>k < length (cacheLocations s). k \<noteq> index \<longrightarrow>
              cacheLocations (snd (handleCollect index s)) ! k = cacheLocations s ! k)) \<and>
         (coins (cacheLocations s ! index) = [] \<longrightarrow>
           handleCollect index s = (Inr ''No coins left to collect in this cache!'', s))"
  using assms by (auto simp: handleCollect_def Let_def)

theorem handleCollect_spec_witness:
  "0 < length (cacheLocations scenarioD) \<and> coins (cacheLocations scenarioD ! 0) \<noteq> [] \<and>
   playerCoins (snd (handleCollect 0 scenarioD)) = playerCoins scenarioD + 1 \<and>
   length (coins (cacheLocations (snd (handleCollect 0 scenarioD)) ! 0)) + 1 =
     length (coins (cacheLocations scenarioD ! 0)) \<and>
   0 < length (cacheLocations drained) \<and> coins (cacheLocations drained ! 0) = [] \<and>
   handleCollect 0 drained = (Inr ''No coins left to collect in this cache!'', drained)"
proof -
  have h1: "0 < length (cacheLocations scenarioD)" by code_simp
  have h2: "coins (cacheLocations scenarioD ! 0) \<noteq> []" by code_simp
  have h3: "0 < length (cacheLocations drained)" by code_simp
  have h4: "coins (cacheLocations drained ! 0) = []" by code_simp
  note full = handleCollect_spec [OF h1, THEN conjunct1, THEN mp, OF h2]
  note a = full [THEN conjunct2, THEN conjunct1]
  note b = full [THEN conjunct2, THEN conjunct2, THEN conjunct2, THEN conjunct2, THEN conjunct1]
  note c = handleCollect_spec [OF h3, THEN conjunct2, THEN mp, OF h4]
  from h1 h2 a b h3 h4 c show ?thesis by (intro conjI)
qed

text \<open>
  C6. For every index of a live cache: when the player holds at least one coin,
  \<open>handleDeposit\<close> alerts a message, takes one from the player's count and appends
  exactly one coin to that cache, leaving the other caches as they were; when the player
  holds none, it alerts "No coins available to deposit!" (the report of empty hands) and
  changes no state.
\<close>

theorem handleDeposit_spec:
  assumes "index < length (cacheLocations s)"
  shows "(playerCoins s \<ge> 1 \<longrightarrow>
           (\<exists>msg. fst (handleDeposit index s) = Inr msg) \<and>
           playerCoins (snd (handleDeposit index s)) = playerCoins s - 1 \<and>
           length (cacheLocations (snd (handleDeposit index s))) = length (cacheLocations s) \<and>
           butlast (coins (cacheLocations (snd (handleDeposit index s)) ! index)) =
             coins (cacheLocations s ! index) \<and>
           length (coins (cacheLocations (snd (handleDeposit index s)) ! index)) =
             length (coins (cacheLocations s ! index)) + 1 \<and>
           (\<forall>k < length (cacheLocations s). k \<noteq> index \<longrightarrow>
              cacheLocations (snd (handleDeposit index s)) ! k = cacheLocations s ! k)) \<and>
         (playerCoins s = 0 \<longrightarrow>
           handleDeposit index s = (Inr ''No coins available to deposit!'', s))"
  using assms by (auto simp: handleDeposit_def Let_def)

theorem handleDeposit_spec_witness:
  "0 < length (cacheLocations drained) \<and> 1 \<le> playerCoins drained \<and>
   playerCoins (snd (handleDeposit 0 drained)) = playerCoins drained - 1 \<and>
   length (coins (cacheLocations (snd (handleDeposit 0 drained)) ! 0)) =
     length (coins (cacheLocations drained ! 0)) + 1 \<and>
   0 < length (cacheLocations scenarioD) \<and> playerCoins scenarioD = 0 \<and>
   handleDeposit 0 scenarioD = (Inr ''No coins available to deposit!'', scenarioD)"
proof -
  have h1: "0 < length (cacheLocations drained)" by code_simp
  have h2: "1 \<le> playerCoins drained" by code_simp
  have h3: "0 < length (cacheLocations scenarioD)" by code_simp
  have h4: "playerCoins scenarioD = 0" by code_simp
  note full = handleDeposit_spec [OF h1, THEN conjunct1, THEN mp, OF h2]
  note a = full [THEN conjunct2, THEN conjunct1]
  note b = full [THEN conjunct2, THEN conjunct2, THEN conjunct2, THEN conjunct2, THEN conjunct1]
  note c = handleDeposit_spec [OF h3, THEN conjunct2, THEN mp, OF h4]
  from h1 h2 a b h3 h4 c show ?thesis by (intro conjI)
qed

lemma totalCoins_collect: "totalCoins (snd (handleCollect index s)) = totalCoins s"
  by (auto simp: handleCollect_def Let_def totalCoins_def sum_coins_update int_length_butlast)

lemma totalCoins_deposit: "totalCoins (snd (handleDeposit index s)) = totalCoins s"
  by (auto simp: handleDeposit_def Let_def totalCoins_def sum_coins_update)

text \<open>
  C10. Every call of \<open>handleCollect\<close> and of \<open>handleDeposit\<close>, at any index and whether
  it succeeds, fails or raises, keeps the sum of the player's coin count and the coin
  counts of all live caches. A collect that succeeds (the index is that of a live cache
  with a coin) moves one unit from the caches to the player and a deposit that succeeds
  (the player holds a coin and the index is that of a live cache) moves one unit from
  the player to the caches; any other call leaves the state as it was.
\<close>

theorem handlers_conserve_coins:
  "totalCoins (snd (handleCollect index s)) = totalCoins s \<and>
   totalCoins (snd (handleDeposit index s)) = totalCoins s \<and>
   (if index < length (cacheLocations s) \<and> coins (cacheLocations s ! index) \<noteq> []
    then playerCoins (snd (handleCollect index s)) = playerCoins s + 1 \<and>
         totalCoins (snd (handleCollect index s)) - playerCoins (snd (handleCollect index s)) =
           totalCoins s - playerCoins s - 1
    else snd (handleCollect index s) = s) \<and>
   (if 0 < playerCoins s \<and> index < length (cacheLocations s)
    then playerCoins (snd (handleDeposit index s)) = playerCoins s - 1 \<and>
         totalCoins (snd (handleDeposit index s)) - playerCoins (snd (handleDeposit index s)) =
           totalCoins s - playerCoins s + 1
    else snd (handleDeposit index s) = s)"
proof -
  have c: "totalCoins (snd (handleCollect index s)) = totalCoins s"
    by (rule totalCoins_collect)
  have d: "totalCoins (snd (handleDeposit index s)) = totalCoins s"
    by (rule totalCoins_deposit)
  have pc: "playerCoins (snd (handleCollect index s)) = playerCoins s + 1"
    if "index < length (cacheLocations s)" "coins (cacheLocations s ! index) \<noteq> []"
    using that by (simp add: handleCollect_def Let_def)
  have nc: "snd (handleCollect index s) = s"
    if "\<not> (index < length (cacheLocations s) \<and> coins (cacheLocations s ! index) \<noteq> [])"
    using that by (auto simp: handleCollect_def Let_def)
  have pd: "playerCoins (snd (handleDeposit index s)) = playerCoins s - 1"
    if "0 < playerCoins s" "index < length (cacheLocations s)"
    using that by (simp add: handleDeposit_def Let_def)
  have nd: "snd (handleDeposit index s) = s"
    if "\<not> (0 < playerCoins s \<and> index < length (cacheLocations s))"
    using that by (auto simp: handleDeposit_def Let_def)
  show ?thesis
  proof (intro conjI)
    show "totalCoins (snd (handleCollect index s)) = totalCoins s" by (rule c)
    show "totalCoins (snd (handleDeposit index s)) = totalCoins s" by (rule d)
    show "if index < length (cacheLocations s) \<and> coins (cacheLocations s ! index) \<noteq> []
          then playerCoins (snd (handleCollect index s)) = playerCoins s + 1 \<and>
               totalCoins (snd (handleCollect index s)) - playerCoins (snd (handleCollect index s)) =
                 totalCoins s - playerCoins s - 1
          else snd (handleCollect index s) = s"
    proof (cases "index < length (cacheLocations s) \<and> coins (cacheLocations s ! index) \<noteq> []")
      case True
      with pc have "playerCoins (snd (handleCollect index s)) = playerCoins s + 1" by simp
      with c True show ?thesis by simp
    next
      case False
      from nc [OF False] False show ?thesis by simp
    qed
    show "if 0 < playerCoins s \<and> index < length (cacheLocations s)
          then playerCoins (snd (handleDeposit index s)) = playerCoins s - 1 \<and>
               totalCoins (snd (handleDeposit index s)) - playerCoins (snd (handleDeposit index s)) =
                 totalCoins s - playerCoins s + 1
          else snd (handleDeposit index s) = s"
    proof (cases "0 < playerCoins s \<and> index < length (cacheLocations s)")
      case True
      with pd have "playerCoins (snd (handleDeposit index s)) = playerCoins s - 1" by simp
      with d True show ?thesis by simp
    next
      case False
      from nd [OF False] False show ?thesis by simp
    qed
  qed
qed

theorem handlers_conserve_coins_witness:
  "totalCoins scenarioD = 2 \<and>
   totalCoins (snd (handleCollect 0 scenarioD)) = 2 \<and>
   totalCoins (snd (handleDeposit 0 scenarioD)) = 2 \<and>
   totalCoins (snd (handleCollect 7 scenarioD)) = 2 \<and>
   playerCoins (snd (handleCollect 0 scenarioD)) = 1"
proof -
  have t: "totalCoins scenarioD = 2" by code_simp
  have p: "playerCoins (snd (handleCollect 0 scenarioD)) = 1" by code_simp
  note a = handlers_conserve_coins [of 0 scenarioD, THEN conjunct1]
  note b = handlers_conserve_coins [of 0 scenarioD, THEN conjunct2, THEN conjunct1]
  note c = handlers_conserve_coins [of 7 scenarioD, THEN conjunct1]
  from t p a b c show ?thesis by simp
qed

section \<open>The pass over the cache locations\<close>

lemma candidate_length: "candidate E player m k = Some new \<Longrightarrow> length new \<le> 1"
  by (auto simp: candidate_def Let_def split: if_splits option.splits)

lemma generateCaches_length:
  "generateCaches E player m ks acc = Some caches \<Longrightarrow> length caches \<le> length acc + length ks"
proof (induction ks arbitrary: acc)
  case Nil
  then show ?case by simp
next
  case (Cons k ks)
  then obtain new where n: "candidate E player m k = Some new"
    and r: "generateCaches E player m ks (acc @ new) = Some caches"
    by (auto split: option.splits)
  from Cons.IH [OF r] candidate_length [OF n] show ?case by simp
qed

text \<open>
  C9. After every run of \<open>updateCacheLocations\<close> there are at most 5 live caches,
  whatever the visibility test, the board and the generator are: the array is emptied
  and the loop makes five rounds, each pushing at most one cache.
\<close>

theorem updateCacheLocations_at_most_5:
  "updateCacheLocations E s = Some s' \<Longrightarrow> length (cacheLocations s') \<le> 5"
  by (auto simp: updateCacheLocations_def Let_def split: option.splits
           dest!: generateCaches_length)

theorem updateCacheLocations_at_most_5_witness:
  "\<exists>s'. updateCacheLocations exampleEnv newGame = Some s' \<and>
         length (cacheLocations s') \<le> 5 \<and> coinCounts s' = [4, 4, 4, 4, 4]"
proof -
  have "map_option coinCounts (updateCacheLocations exampleEnv newGame) = Some [4, 4, 4, 4, 4]"
    by code_simp
  then obtain s' where s': "updateCacheLocations exampleEnv newGame = Some s'"
    and c: "coinCounts s' = [4, 4, 4, 4, 4]" by (auto simp: map_option_case split: option.splits)
  from updateCacheLocations_at_most_5 [OF s'] s' c show ?thesis by simp
qed

lemma splitOn_cellKey: "splitOn CHR '','' (cellKey c) = [intToString (Cell.i c), intToString (Cell.j c)]"
  by (simp add: cellKey_def splitOn_append splitOn_no_sep intToString_no_comma)

lemma intToString_inject: "intToString a = intToString b \<Longrightarrow> a = b"
proof -
  assume "intToString a = intToString b"
  then have "Number (intToString a) = Number (intToString b)" by simp
  then show ?thesis by (simp add: Number_intToString)
qed

lemma cellKey_inject: "cellKey c = cellKey c' \<Longrightarrow> c = c'"
proof -
  assume "cellKey c = cellKey c'"
  then have "splitOn CHR '','' (cellKey c) = splitOn CHR '','' (cellKey c')" by simp
  then have "Cell.i c = Cell.i c'" "Cell.j c = Cell.j c'"
    by (auto simp: splitOn_cellKey dest: intToString_inject)
  then show ?thesis by simp
qed

lemma saveMementos_other:
  "\<forall>c \<in> set cs. cell c \<noteq> x \<Longrightarrow> saveMementos cs m (cellKey x) = m (cellKey x)"
proof (induction cs arbitrary: m)
  case Nil
  then show ?case by simp
next
  case (Cons a cs)
  then have "cellKey (cell a) \<noteq> cellKey x" by (auto dest: cellKey_inject)
  with Cons show ?case by simp
qed

lemma saveMementos_last:
  assumes "p < length cs"
    and "\<forall>q. p < q \<and> q < length cs \<longrightarrow> cell (cs ! q) \<noteq> cell (cs ! p)"
  shows "saveMementos cs m (cellKey (cell (cs ! p))) = Some (snapshotOf (cs ! p))"
  using assms
proof (induction cs arbitrary: p m)
  case Nil
  then show ?case by simp
next
  case (Cons a cs)
  show ?case
  proof (cases p)
    case 0
    have "\<forall>c \<in> set cs. cell c \<noteq> cell a"
    proof
      fix c assume "c \<in> set cs"
      then obtain q where "q < length cs" "cs ! q = c" by (auto simp: in_set_conv_nth)
      with Cons.prems(2) [rule_format, of "Suc q"] 0 show "cell c \<noteq> cell a" by auto
    qed
    from saveMementos_other [OF this] 0 show ?thesis by simp
  next
    case (Suc p')
    with Cons.prems have a: "p' < length cs" by simp
    have b: "\<forall>q. p' < q \<and> q < length cs \<longrightarrow> cell (cs ! q) \<noteq> cell (cs ! p')"
    proof (intro allI impI)
      fix q assume "p' < q \<and> q < length cs"
      with Cons.prems(2) [rule_format, of "Suc q"] Suc show "cell (cs ! q) \<noteq> cell (cs ! p')" by simp
    qed
    from Cons.IH [OF a b] Suc show ?thesis by simp
  qed
qed

lemma snapshotsWellFormed_empty: "snapshotsWellFormed Map.empty"
  by (simp add: snapshotsWellFormed_def)

lemma saveMementos_wellFormed:
  "snapshotsWellFormed m \<Longrightarrow> snapshotsWellFormed (saveMementos cs m)"
proof (induction cs arbitrary: m)
  case Nil
  then show ?case by simp
next
  case (Cons a cs)
  have "snapshotsWellFormed (m(cellKey (cell a) \<mapsto> snapshotOf a))"
    using Cons.prems unfolding snapshotsWellFormed_def snapshotOf_def by auto
  from Cons.IH [OF this] show ?case by (simp only: saveMementos.simps)
qed

lemma coinLoop_eq:
  "coinLoop c cacheId n k acc = acc @ map (newCoin c cacheId) [k..<coinCount n]"
proof (induction c cacheId n k acc rule: coinLoop.induct)
  case (1 c cacheId n k acc)
  show ?case
  proof (cases "below k n")
    case True
    then have "k < coinCount n" by (auto simp: below_def coinCount_def split: number.splits)
    with 1 True show ?thesis
      by (simp add: coinLoop.simps [of c cacheId n k acc] upt_conv_Cons)
  next
    case False
    then have "\<not> k < coinCount n" by (auto simp: below_def coinCount_def split: number.splits)
    with False show ?thesis by (simp add: coinLoop.simps [of c cacheId n k acc])
  qed
qed

lemma toMomento_nonempty: "toMomento g \<noteq> []"
  by (simp add: toMomento_def)

lemma chooseNumCoins_snapshot:
  assumes "m (cellKey c) = Some (toMomento \<lparr>Geocache.i = Num a, j = Num b, numCoins = Num n\<rparr>)"
  shows "chooseNumCoins lk m c cacheId = Some (Num n)"
  using assms by (simp add: chooseNumCoins_def toMomento_nonempty fromMomento_snapshot)

lemma chooseNumCoins_wellFormed:
  assumes "snapshotsWellFormed m"
  shows "\<exists>n. chooseNumCoins lk m c cacheId = Some (Num n)"
proof (cases "m (cellKey c)")
  case None
  then show ?thesis by (simp add: chooseNumCoins_def)
next
  case (Some v)
  with assms obtain a b n where "v = toMomento \<lparr>Geocache.i = Num a, j = Num b, numCoins = Num (int n)\<rparr>"
    unfolding snapshotsWellFormed_def by blast
  with Some chooseNumCoins_snapshot [of m c a b "int n" lk cacheId] show ?thesis by simp
qed
lemma candidate_unfold:
  "candidate E player m k =
     (if isCacheVisible E (candidateLocation E player (cacheIdOf k)) player then
        (case chooseNumCoins (luck E) m (boardCell E (candidateLocation E player (cacheIdOf k)))
                (cacheIdOf k) of
           None \<Rightarrow> None
         | Some n \<Rightarrow>
             Some [\<lparr>cell = boardCell E (candidateLocation E player (cacheIdOf k)),
                    coins = map (newCoin (boardCell E (candidateLocation E player (cacheIdOf k)))
                                   (cacheIdOf k)) [0..<coinCount n],
                    cache_id = cacheIdOf k\<rparr>])
      else Some [])"
  by (simp add: candidate_def Let_def coinLoop_eq split: option.splits)

lemma candidate_wellFormed:
  assumes "snapshotsWellFormed m"
  shows "\<exists>new. candidate E player m k = Some new"
  using chooseNumCoins_wellFormed [OF assms, of "luck E"
      "boardCell E (candidateLocation E player (cacheIdOf k))" "cacheIdOf k"]
  by (auto simp: candidate_unfold)

lemma candidate_restores:
  assumes "m (cellKey c) = Some (toMomento \<lparr>Geocache.i = Num a, j = Num b, numCoins = Num (int n)\<rparr>)"
    and "candidate E player m k = Some new" and "d \<in> set new" and "cell d = c"
  shows "coins d = map (newCoin c (cache_id d)) [0..<n]"
proof -
  from assms(2,3) have v: "isCacheVisible E (candidateLocation E player (cacheIdOf k)) player"
    by (auto simp: candidate_unfold split: if_splits)
  with assms(2,3,4) have c: "boardCell E (candidateLocation E player (cacheIdOf k)) = c"
    by (auto simp: candidate_unfold split: option.splits)
  from chooseNumCoins_snapshot [of m c a b "int n" "luck E" "cacheIdOf k"] assms(1) c
  have "chooseNumCoins (luck E) m (boardCell E (candidateLocation E player (cacheIdOf k)))
          (cacheIdOf k) = Some (Num (int n))" by simp
  with assms(2,3) v c show ?thesis
    by (auto simp: candidate_unfold coinCount_def)
qed

lemma candidate_lands:
  assumes "isCacheVisible E (candidateLocation E player (cacheIdOf k)) player"
    and "candidate E player m k = Some new"
  shows "\<exists>d \<in> set new. cell d = boardCell E (candidateLocation E player (cacheIdOf k)) \<and>
           cache_id d = cacheIdOf k"
  using assms by (auto simp: candidate_unfold split: option.splits)

lemma generateCaches_mem:
  "generateCaches E player m ks acc = Some caches \<Longrightarrow> d \<in> set caches \<Longrightarrow>
   d \<in> set acc \<or> (\<exists>k \<in> set ks. \<exists>new. candidate E player m k = Some new \<and> d \<in> set new)"
proof (induction ks arbitrary: acc)
  case Nil
  then show ?case by simp
next
  case (Cons k ks)
  then obtain new where n: "candidate E player m k = Some new"
    and r: "generateCaches E player m ks (acc @ new) = Some caches"
    by (auto split: option.splits)
  from Cons.IH [OF r Cons.prems(2)] n show ?case by auto
qed

lemma generateCaches_acc:
  "generateCaches E player m ks acc = Some caches \<Longrightarrow> set acc \<subseteq> set caches"
proof (induction ks arbitrary: acc)
  case Nil
  then show ?case by simp
next
  case (Cons k ks)
  then obtain new where r: "generateCaches E player m ks (acc @ new) = Some caches"
    by (auto split: option.splits)
  from Cons.IH [OF r] show ?case by simp
qed

lemma generateCaches_contains:
  "generateCaches E player m ks acc = Some caches \<Longrightarrow> k \<in> set ks \<Longrightarrow>
   \<exists>new. candidate E player m k = Some new \<and> set new \<subseteq> set caches"
proof (induction ks arbitrary: acc)
  case Nil
  then show ?case by simp
next
  case (Cons k' ks)
  then obtain new' where n: "candidate E player m k' = Some new'"
    and r: "generateCaches E player m ks (acc @ new') = Some caches"
    by (auto split: option.splits)
  show ?case
  proof (cases "k = k'")
    case True
    with n generateCaches_acc [OF r] show ?thesis by simp
  next
    case False
    with Cons.prems(2) have "k \<in> set ks" by simp
    from Cons.IH [OF r this] show ?thesis .
  qed
qed

lemma generateCaches_total:
  "\<forall>k \<in> set ks. \<exists>new. candidate E player m k = Some new \<Longrightarrow>
   \<exists>caches. generateCaches E player m ks acc = Some caches"
proof (induction ks arbitrary: acc)
  case Nil
  then show ?case by simp
next
  case (Cons k ks)
  then obtain new where n: "candidate E player m k = Some new" by auto
  from Cons.IH [of "acc @ new"] Cons.prems n show ?case by simp
qed

lemma updateCacheLocations_Some:
  assumes "updateCacheLocations E s = Some s'"
  shows "geocacheMementos s' = saveMementos (cacheLocations s) (geocacheMementos s) \<and>
         generateCaches E (playerLocation s) (geocacheMementos s') [0..<5] [] =
           Some (cacheLocations s')"
  using assms by (auto simp: updateCacheLocations_def Let_def split: option.splits)

lemma updateCacheLocations_total:
  assumes "snapshotsWellFormed (geocacheMementos s)"
  shows "\<exists>s'. updateCacheLocations E s = Some s' \<and> snapshotsWellFormed (geocacheMementos s')"
proof -
  let ?m = "saveMementos (cacheLocations s) (geocacheMementos s)"
  from saveMementos_wellFormed [OF assms] have wf: "snapshotsWellFormed ?m" .
  then have "\<forall>k \<in> set [0..<5]. \<exists>new. candidate E (playerLocation s) ?m k = Some new"
    by (intro ballI candidate_wellFormed)
  from generateCaches_total [OF this]
  obtain caches where "generateCaches E (playerLocation s) ?m [0..<5] [] = Some caches" by blast
  with wf show ?thesis by (simp add: updateCacheLocations_def Let_def)
qed

lemma handleCollect_mementos:
  "geocacheMementos (snd (handleCollect index s)) = geocacheMementos s"
  by (simp add: handleCollect_def Let_def)

lemma handleDeposit_mementos:
  "geocacheMementos (snd (handleDeposit index s)) = geocacheMementos s"
  by (simp add: handleDeposit_def Let_def)

lemma step_total:
  assumes "snapshotsWellFormed (geocacheMementos s)"
  shows "\<exists>s'. step E e s = Some s' \<and> snapshotsWellFormed (geocacheMementos s')"
proof (cases e)
  case (MoveTo p)
  from updateCacheLocations_total [of "s\<lparr>playerLocation := p\<rparr>" E] assms MoveTo
  show ?thesis by (simp add: handleGeolocationUpdate_def)
next
  case (Collect index)
  with assms show ?thesis by (simp add: handleCollect_mementos)
next
  case (Deposit index)
  with assms show ?thesis by (simp add: handleDeposit_mementos)
qed

lemma run_total:
  "snapshotsWellFormed (geocacheMementos s) \<Longrightarrow>
   \<exists>s'. run E es s = Some s' \<and> snapshotsWellFormed (geocacheMementos s')"
proof (induction es arbitrary: s)
  case Nil
  then show ?case by simp
next
  case (Cons e es)
  from step_total [OF Cons.prems, of E e] obtain s1 where
    s1: "step E e s = Some s1" "snapshotsWellFormed (geocacheMementos s1)" by blast
  from Cons.IH [OF s1(2)] s1(1) show ?case by simp
qed

lemma run_append:
  "run E (es @ fs) s = (case run E es s of None \<Rightarrow> None | Some s' \<Rightarrow> run E fs s')"
  by (induction es arbitrary: s) (auto split: option.splits)

lemma map_update_same: "f y = f (xs ! k) \<Longrightarrow> map f (xs[k := y]) = map f xs"
proof (induction xs arbitrary: k)
  case Nil
  then show ?case by simp
next
  case (Cons a xs)
  then show ?case by (cases k) simp_all
qed

lemma handleCollect_cells:
  "map cell (cacheLocations (snd (handleCollect index s))) = map cell (cacheLocations s)"
  by (simp add: handleCollect_def Let_def map_update_same)

lemma handleDeposit_cells:
  "map cell (cacheLocations (snd (handleDeposit index s))) = map cell (cacheLocations s)"
  by (simp add: handleDeposit_def Let_def map_update_same)

lemma materialized_map: "materialized c s = (c \<in> set (map cell (cacheLocations s)))"
  by (simp add: materialized_def)

lemma materialized_collect: "materialized c (snd (handleCollect index s)) = materialized c s"
  by (simp only: materialized_map handleCollect_cells)

lemma materialized_deposit: "materialized c (snd (handleDeposit index s)) = materialized c s"
  by (simp only: materialized_map handleDeposit_cells)

lemma materialized_nth: "p < length (cacheLocations s) \<Longrightarrow> materialized (cell (cacheLocations s ! p)) s"
  by (simp add: materialized_def)

lemma step_keeps_snapshot:
  assumes "\<not> materialized c s" and "step E e s = Some s'"
  shows "geocacheMementos s' (cellKey c) = geocacheMementos s (cellKey c)"
proof (cases e)
  case (MoveTo p)
  from assms(1) have "\<forall>d \<in> set (cacheLocations (s\<lparr>playerLocation := p\<rparr>)). cell d \<noteq> c"
    by (auto simp: materialized_def)
  from saveMementos_other [OF this] assms(2) MoveTo show ?thesis
    by (auto simp: handleGeolocationUpdate_def dest!: updateCacheLocations_Some)
next
  case (Collect index)
  with assms show ?thesis by (auto simp: handleCollect_mementos)
next
  case (Deposit index)
  with assms show ?thesis by (auto simp: handleDeposit_mementos)
qed

lemma absent_run:
  "\<not> materialized c s \<Longrightarrow> absentAfter E c es s \<Longrightarrow> run E es s = Some s' \<Longrightarrow>
   geocacheMementos s' (cellKey c) = geocacheMementos s (cellKey c) \<and> \<not> materialized c s'"
proof (induction es arbitrary: s)
  case Nil
  then show ?case by simp
next
  case (Cons e es)
  from Cons.prems(3) obtain s1 where s1: "step E e s = Some s1" and r: "run E es s1 = Some s'"
    by (auto split: option.splits)
  with Cons.prems(2) have a: "\<not> materialized c s1" "absentAfter E c es s1" by simp_all
  from Cons.IH [OF a r] step_keeps_snapshot [OF Cons.prems(1) s1] show ?case by simp
qed

text \<open>The snapshot that the next pass reads for the cell of the last live cache in it.\<close>

lemma first_step_saves:
  assumes "p < length (cacheLocations s)"
    and "\<forall>q. p < q \<and> q < length (cacheLocations s) \<longrightarrow>
           cell (cacheLocations s ! q) \<noteq> cell (cacheLocations s ! p)"
    and "step E e s = Some s1" and "\<not> materialized (cell (cacheLocations s ! p)) s1"
  shows "geocacheMementos s1 (cellKey (cell (cacheLocations s ! p))) =
           Some (snapshotOf (cacheLocations s ! p))"
proof (cases e)
  case (MoveTo x)
  from saveMementos_last [of p "cacheLocations s", OF assms(1,2)] assms(3) MoveTo
  show ?thesis
    by (auto simp: handleGeolocationUpdate_def dest!: updateCacheLocations_Some)
next
  case (Collect index)
  with assms(3,4) materialized_nth [OF assms(1)]
    materialized_collect [of "cell (cacheLocations s ! p)" index s]
  show ?thesis by auto
next
  case (Deposit index)
  with assms(3,4) materialized_nth [OF assms(1)]
    materialized_deposit [of "cell (cacheLocations s ! p)" index s]
  show ?thesis by auto
qed

lemma pass_restores:
  assumes "saveMementos (cacheLocations t) (geocacheMementos t) (cellKey c) =
             Some (toMomento \<lparr>Geocache.i = Num a, j = Num b, numCoins = Num (int n)\<rparr>)"
    and "handleGeolocationUpdate E back t = Some s2"
    and "d \<in> set (cacheLocations s2)" and "cell d = c"
  shows "coins d = map (newCoin c (cache_id d)) [0..<n]"
proof -
  from assms(2) have m: "geocacheMementos s2 = saveMementos (cacheLocations t) (geocacheMementos t)"
    and g: "generateCaches E back (geocacheMementos s2) [0..<5] [] = Some (cacheLocations s2)"
    by (auto simp: handleGeolocationUpdate_def dest!: updateCacheLocations_Some)
  from generateCaches_mem [OF g assms(3)] obtain k new where
    "candidate E back (geocacheMementos s2) k = Some new" "d \<in> set new" by auto
  from candidate_restores [OF _ this assms(4)] assms(1) m show ?thesis by simp
qed

lemma pass_places:
  assumes "handleGeolocationUpdate E back t = Some s2" and "k < 5"
    and "isCacheVisible E (candidateLocation E back (cacheIdOf k)) back"
  shows "\<exists>d \<in> set (cacheLocations s2).
           cell d = boardCell E (candidateLocation E back (cacheIdOf k)) \<and> cache_id d = cacheIdOf k"
proof -
  from assms(1) have g: "generateCaches E back (geocacheMementos s2) [0..<5] [] = Some (cacheLocations s2)"
    by (auto simp: handleGeolocationUpdate_def dest!: updateCacheLocations_Some)
  from assms(2) have k: "k \<in> set [0..<5]" by simp
  from generateCaches_contains [OF g k] obtain new where
    n: "candidate E back (geocacheMementos s2) k = Some new" "set new \<subseteq> set (cacheLocations s2)"
    by blast
  from candidate_lands [OF assms(3) n(1)] n(2) show ?thesis by auto
qed


section \<open>Eviction and return\<close>

text \<open>
  C1. A cache that is live with \<open>n\<close> coins, is evicted by a pass and whose cell later
  re-enters visibility should come back with exactly \<open>n\<close> coins from the stored
  snapshot. The program saves one snapshot per cell, under the key of the cell, and
  each live cache of a cell overwrites the entry of the one before it. From the empty
  game the first pass puts the caches 0, 2, 3 and 4 in cell \<open>(5, 5)\<close> with 4 coins
  each; one coin is collected from cache 4; the player moves away, which evicts them
  all, and returns: cache 0, live with 4 coins before, comes back with 3, the count of
  cache 4.
\<close>

theorem shared_cell_snapshot_overwritten:
  "map_option cellsOf (run exampleEnv [MoveTo (5, 5), Collect 4] newGame) =
     Some [(5, 5), (6, 5), (5, 5), (5, 5), (5, 5)] \<and>
   map_option coinCounts (run exampleEnv [MoveTo (5, 5), Collect 4] newGame) = Some [4, 4, 4, 4, 3] \<and>
   map_option cellsOf (run exampleEnv [MoveTo (5, 5), Collect 4, MoveTo (9, 9)] newGame) =
     Some [(9, 9), (10, 9), (9, 9), (9, 9), (9, 9)] \<and>
   map_option cellsOf (run exampleEnv [MoveTo (5, 5), Collect 4, MoveTo (9, 9), MoveTo (5, 5)] newGame) =
     Some [(5, 5), (6, 5), (5, 5), (5, 5), (5, 5)] \<and>
   map_option coinCounts (run exampleEnv [MoveTo (5, 5), Collect 4, MoveTo (9, 9), MoveTo (5, 5)] newGame) =
     Some [3, 4, 3, 3, 3]"
proof (intro conjI)
  show "map_option cellsOf (run exampleEnv [MoveTo (5, 5), Collect 4] newGame) =
     Some [(5, 5), (6, 5), (5, 5), (5, 5), (5, 5)]" by code_simp
  show "map_option coinCounts (run exampleEnv [MoveTo (5, 5), Collect 4] newGame) = Some [4, 4, 4, 4, 3]"
    by code_simp
  show "map_option cellsOf (run exampleEnv [MoveTo (5, 5), Collect 4, MoveTo (9, 9)] newGame) =
     Some [(9, 9), (10, 9), (9, 9), (9, 9), (9, 9)]" by code_simp
  show "map_option cellsOf (run exampleEnv [MoveTo (5, 5), Collect 4, MoveTo (9, 9), MoveTo (5, 5)] newGame) =
     Some [(5, 5), (6, 5), (5, 5), (5, 5), (5, 5)]" by code_simp
  show "map_option coinCounts (run exampleEnv [MoveTo (5, 5), Collect 4, MoveTo (9, 9), MoveTo (5, 5)] newGame) =
     Some [3, 4, 3, 3, 3]" by code_simp
qed

section \<open>What happens to a coin\<close>

text \<open>
  C4, as amended. Coins are counted, not moved: the player's holdings are a number.
  For every index of a live cache, a successful collect removes the last coin of the
  cache's array, leaving the others with their identifiers and order, and adds one to
  the player's count; a successful deposit appends a newly made coin whose identifier is
  \<open>cache-<index>-coin-<previous length>\<close> and whose originating cache is the receiving
  cache, after the coins already there. A snapshot stores the number of coins only, and
  a restore reads that number back and builds that many coins with the identifiers
  \<open>i:j#k\<close>, \<open>k\<close> from 0, and the restoring cache as their originating cache.
\<close>

theorem coins_counted_not_moved:
  assumes "index < length (cacheLocations s)"
  shows "(coins (cacheLocations s ! index) \<noteq> [] \<longrightarrow>
            coins (cacheLocations (snd (handleCollect index s)) ! index) =
              butlast (coins (cacheLocations s ! index)) \<and>
            playerCoins (snd (handleCollect index s)) = playerCoins s + 1) \<and>
         (0 < playerCoins s \<longrightarrow>
            coins (cacheLocations (snd (handleDeposit index s)) ! index) =
              coins (cacheLocations s ! index) @
              [\<lparr>coin_id = ''cache-'' @ intToString (int index) @ ''-coin-'' @
                           intToString (int (length (coins (cacheLocations s ! index)))),
                originatingCacheId = cache_id (cacheLocations s ! index)\<rparr>] \<and>
            playerCoins (snd (handleDeposit index s)) = playerCoins s - 1) \<and>
         chooseNumCoins lk (saveMementos [cacheLocations s ! index] m)
             (cell (cacheLocations s ! index)) cacheId =
           Some (Num (int (length (coins (cacheLocations s ! index))))) \<and>
         coinLoop c cacheId (Num (int n)) 0 [] = map (newCoin c cacheId) [0..<n]"
proof (intro conjI impI)
  assume "coins (cacheLocations s ! index) \<noteq> []"
  with assms show "coins (cacheLocations (snd (handleCollect index s)) ! index) =
      butlast (coins (cacheLocations s ! index))"
    and "playerCoins (snd (handleCollect index s)) = playerCoins s + 1"
    by (simp_all add: handleCollect_def Let_def)
next
  assume "0 < playerCoins s"
  with assms show "coins (cacheLocations (snd (handleDeposit index s)) ! index) =
      coins (cacheLocations s ! index) @
      [\<lparr>coin_id = ''cache-'' @ intToString (int index) @ ''-coin-'' @
                   intToString (int (length (coins (cacheLocations s ! index)))),
        originatingCacheId = cache_id (cacheLocations s ! index)\<rparr>]"
    and "playerCoins (snd (handleDeposit index s)) = playerCoins s - 1"
    by (simp_all add: handleDeposit_def Let_def)
next
  have "saveMementos [cacheLocations s ! index] m (cellKey (cell (cacheLocations s ! index))) =
          Some (toMomento \<lparr>Geocache.i = Num (Cell.i (cell (cacheLocations s ! index))),
                           j = Num (Cell.j (cell (cacheLocations s ! index))),
                           numCoins = Num (int (length (coins (cacheLocations s ! index))))\<rparr>)"
    by (simp add: snapshotOf_def)
  then show "chooseNumCoins lk (saveMementos [cacheLocations s ! index] m)
      (cell (cacheLocations s ! index)) cacheId =
      Some (Num (int (length (coins (cacheLocations s ! index)))))"
    by (rule chooseNumCoins_snapshot)
next
  show "coinLoop c cacheId (Num (int n)) 0 [] = map (newCoin c cacheId) [0..<n]"
    by (simp add: coinLoop_eq coinCount_def)
qed

theorem coins_counted_not_moved_witness:
  "0 < length (cacheLocations scenarioD) \<and> coins (cacheLocations scenarioD ! 0) \<noteq> [] \<and>
   coins (cacheLocations (snd (handleCollect 0 scenarioD)) ! 0) =
     butlast (coins (cacheLocations scenarioD ! 0)) \<and>
   coinIds 0 (snd (handleCollect 0 scenarioD)) = [(''5:5#0'', ''cache-0'')] \<and>
   0 < length (cacheLocations drained) \<and> 0 < playerCoins drained \<and>
   playerCoins (snd (handleDeposit 0 drained)) = playerCoins drained - 1 \<and>
   coinIds 0 (snd (handleDeposit 0 drained)) = [(''cache-0-coin-0'', ''cache-0'')]"
proof -
  have h1: "0 < length (cacheLocations scenarioD)" by code_simp
  have h2: "coins (cacheLocations scenarioD ! 0) \<noteq> []" by code_simp
  have h3: "0 < length (cacheLocations drained)" by code_simp
  have h4: "0 < playerCoins drained" by code_simp
  have e1: "coinIds 0 (snd (handleCollect 0 scenarioD)) = [(''5:5#0'', ''cache-0'')]" by code_simp
  have e2: "coinIds 0 (snd (handleDeposit 0 drained)) = [(''cache-0-coin-0'', ''cache-0'')]"
    by code_simp
  note a = coins_counted_not_moved [OF h1, THEN conjunct1, THEN mp, OF h2, THEN conjunct1]
  note b = coins_counted_not_moved [OF h3, THEN conjunct2, THEN conjunct1, THEN mp, OF h4,
      THEN conjunct2]
  from h1 h2 a e1 h3 h4 b e2 show ?thesis by (intro conjI)
qed

text \<open>
  C4 as stated fails. After the first pass cache 0 ends with the coin \<open>5:5#3\<close> of
  \<open>cache-0\<close>. The player collects it and deposits into cache 1: the coin that arrives
  there is \<open>cache-1-coin-4\<close> of \<open>cache-1\<close>, not the collected one, which exists nowhere
  any more. After the player has moved away and back, the coin deposited in cache 1
  is called \<open>6:5#4\<close>.
\<close>

theorem coin_identity_counterexample:
  "map_option (coinIds 0) (run exampleEnv [MoveTo (5, 5)] newGame) =
     Some [(''5:5#0'', ''cache-0''), (''5:5#1'', ''cache-0''), (''5:5#2'', ''cache-0''),
           (''5:5#3'', ''cache-0'')] \<and>
   map_option (coinIds 0) (run exampleEnv [MoveTo (5, 5), Collect 0, Deposit 1] newGame) =
     Some [(''5:5#0'', ''cache-0''), (''5:5#1'', ''cache-0''), (''5:5#2'', ''cache-0'')] \<and>
   map_option (coinIds 1) (run exampleEnv [MoveTo (5, 5), Collect 0, Deposit 1] newGame) =
     Some [(''6:5#0'', ''cache-1''), (''6:5#1'', ''cache-1''), (''6:5#2'', ''cache-1''),
           (''6:5#3'', ''cache-1''), (''cache-1-coin-4'', ''cache-1'')] \<and>
   map_option (coinIds 1)
     (run exampleEnv [MoveTo (5, 5), Collect 0, Deposit 1, MoveTo (9, 9), MoveTo (5, 5)] newGame) =
     Some [(''6:5#0'', ''cache-1''), (''6:5#1'', ''cache-1''), (''6:5#2'', ''cache-1''),
           (''6:5#3'', ''cache-1''), (''6:5#4'', ''cache-1'')]"
proof (intro conjI)
  show "map_option (coinIds 0) (run exampleEnv [MoveTo (5, 5)] newGame) =
     Some [(''5:5#0'', ''cache-0''), (''5:5#1'', ''cache-0''), (''5:5#2'', ''cache-0''),
           (''5:5#3'', ''cache-0'')]" by code_simp
  show "map_option (coinIds 0) (run exampleEnv [MoveTo (5, 5), Collect 0, Deposit 1] newGame) =
     Some [(''5:5#0'', ''cache-0''), (''5:5#1'', ''cache-0''), (''5:5#2'', ''cache-0'')]"
    by code_simp
  show "map_option (coinIds 1) (run exampleEnv [MoveTo (5, 5), Collect 0, Deposit 1] newGame) =
     Some [(''6:5#0'', ''cache-1''), (''6:5#1'', ''cache-1''), (''6:5#2'', ''cache-1''),
           (''6:5#3'', ''cache-1''), (''cache-1-coin-4'', ''cache-1'')]" by code_simp
  show "map_option (coinIds 1)
     (run exampleEnv [MoveTo (5, 5), Collect 0, Deposit 1, MoveTo (9, 9), MoveTo (5, 5)] newGame) =
     Some [(''6:5#0'', ''cache-1''), (''6:5#1'', ''cache-1''), (''6:5#2'', ''cache-1''),
           (''6:5#3'', ''cache-1''), (''6:5#4'', ''cache-1'')]" by code_simp
qed

section \<open>A stored string that is no snapshot\<close>











section \<open>One record per cell\<close>

lemma getCellForPoint_cases:
  "getCellForPoint point b =
     (case knownCells b (cellIndex point b) of
        Some r \<Rightarrow> (r, b)
      | None \<Rightarrow>
          (length (cellStore b),
           b\<lparr>knownCells := (knownCells b)(cellIndex point b \<mapsto> length (cellStore b)),
             cellStore := cellStore b @ [\<lparr>Cell.i = fst (cellIndex point b), j = snd (cellIndex point b)\<rparr>]\<rparr>))"
  by (simp add: getCellForPoint_def)

lemma getCellForPoint_width: "tileWidth (snd (getCellForPoint point b)) = tileWidth b"
  by (simp add: getCellForPoint_cases split: option.splits)

lemma lookups_width: "tileWidth (lookups ps b) = tileWidth b"
  by (induction ps arbitrary: b) (simp_all add: getCellForPoint_width)

lemma getCellForPoint_keeps:
  "knownCells b key = Some r \<Longrightarrow> knownCells (snd (getCellForPoint point b)) key = Some r"
  by (auto simp: getCellForPoint_cases split: option.splits)

lemma lookups_keeps:
  "knownCells b key = Some r \<Longrightarrow> knownCells (lookups ps b) key = Some r"
  by (induction ps arbitrary: b) (simp_all add: getCellForPoint_keeps)

lemma getCellForPoint_registers:
  "knownCells (snd (getCellForPoint point b)) (cellIndex point b) = Some (fst (getCellForPoint point b))"
  by (simp add: getCellForPoint_cases split: option.splits)

lemma getCellForPoint_hit:
  "knownCells b (cellIndex point b) = Some r \<Longrightarrow> fst (getCellForPoint point b) = r"
  by (simp add: getCellForPoint_cases)

lemma cellIndex_width: "tileWidth b' = tileWidth b \<Longrightarrow> cellIndex point b' = cellIndex point b"
  by (simp add: cellIndex_def)

lemma same_reference:
  "fst (getCellForPoint point (lookups qs (snd (getCellForPoint point b)))) =
   fst (getCellForPoint point b)"
proof -
  let ?b1 = "snd (getCellForPoint point b)"
  let ?b2 = "lookups qs ?b1"
  have w: "cellIndex point ?b2 = cellIndex point b"
    by (rule cellIndex_width) (simp add: lookups_width getCellForPoint_width)
  from lookups_keeps [OF getCellForPoint_registers]
  have "knownCells ?b2 (cellIndex point b) = Some (fst (getCellForPoint point b))" .
  with w have "knownCells ?b2 (cellIndex point ?b2) = Some (fst (getCellForPoint point b))"
    by (simp only:)
  then show ?thesis by (rule getCellForPoint_hit)
qed

lemma boardInv_new: "boardInv (newBoard w)"
  by (simp add: boardInv_def newBoard_def)

lemma boardInv_D1:
  assumes "boardInv b" and "r < length (cellStore b)"
  shows "knownCells b (Cell.i (cellStore b ! r), Cell.j (cellStore b ! r)) = Some r"
proof -
  from assms(1) have a: "\<forall>r < length (cellStore b).
      knownCells b (Cell.i (cellStore b ! r), Cell.j (cellStore b ! r)) = Some r"
    unfolding boardInv_def by (rule conjunct1)
  from a [rule_format, OF assms(2)] show ?thesis .
qed

lemma boardInv_D2:
  assumes "boardInv b" and "knownCells b (a, c) = Some r"
  shows "r < length (cellStore b) \<and> cellStore b ! r = \<lparr>Cell.i = a, j = c\<rparr>"
proof -
  from assms(1) have a: "\<forall>a c r. knownCells b (a, c) = Some r \<longrightarrow>
      r < length (cellStore b) \<and> cellStore b ! r = \<lparr>Cell.i = a, j = c\<rparr>"
    unfolding boardInv_def by (rule conjunct2)
  from a [rule_format, OF assms(2)] show ?thesis .
qed

lemma boardInv_step:
  assumes inv: "boardInv b"
  shows "boardInv (snd (getCellForPoint point b))"
proof (cases "knownCells b (cellIndex point b)")
  case (Some r)
  with inv show ?thesis by (simp add: getCellForPoint_cases)
next
  case None
  obtain a c where ac: "cellIndex point b = (a, c)" by (cases "cellIndex point b")
  let ?n = "length (cellStore b)"
  let ?b' = "snd (getCellForPoint point b)"
  from None ac have K: "knownCells ?b' = (knownCells b)((a, c) \<mapsto> ?n)"
    and S: "cellStore ?b' = cellStore b @ [\<lparr>Cell.i = a, j = c\<rparr>]"
    by (simp_all add: getCellForPoint_cases)
  have p1: "knownCells ?b' (Cell.i (cellStore ?b' ! r), Cell.j (cellStore ?b' ! r)) = Some r"
    if "r < length (cellStore ?b')" for r
  proof (cases "r < ?n")
    case True
    have k: "knownCells b (Cell.i (cellStore b ! r), Cell.j (cellStore b ! r)) = Some r"
      by (rule boardInv_D1 [OF inv True])
    have ne: "(Cell.i (cellStore b ! r), Cell.j (cellStore b ! r)) \<noteq> (a, c)"
    proof
      assume "(Cell.i (cellStore b ! r), Cell.j (cellStore b ! r)) = (a, c)"
      with k have "knownCells b (a, c) = Some r" by simp
      with None ac show False by simp
    qed
    from True have "cellStore ?b' ! r = cellStore b ! r"
      unfolding S by (simp only: nth_append if_True)
    with k ne show ?thesis unfolding K by auto
  next
    case False
    with that have rn: "r = ?n" unfolding S by simp
    then have "cellStore ?b' ! r = \<lparr>Cell.i = a, j = c\<rparr>" unfolding S by simp
    with rn show ?thesis unfolding K by simp
  qed
  have p2: "r < length (cellStore ?b') \<and> cellStore ?b' ! r = \<lparr>Cell.i = a', j = c'\<rparr>"
    if "knownCells ?b' (a', c') = Some r" for a' c' r
  proof (cases "(a', c') = (a, c)")
    case True
    with that have "r = ?n" unfolding K by simp
    with True show ?thesis unfolding S by simp
  next
    case False
    with that have "knownCells b (a', c') = Some r" unfolding K by (simp split: if_splits)
    from boardInv_D2 [OF inv this] show ?thesis unfolding S by (simp add: nth_append)
  qed
  show ?thesis
    unfolding boardInv_def
  proof (intro conjI allI impI)
    fix r assume "r < length (cellStore ?b')"
    then show "knownCells ?b' (Cell.i (cellStore ?b' ! r), Cell.j (cellStore ?b' ! r)) = Some r"
      by (rule p1)
  next
    fix a' c' r assume k: "knownCells ?b' (a', c') = Some r"
    from p2 [OF k] show "r < length (cellStore ?b')" ..
    from p2 [OF k] show "cellStore ?b' ! r = \<lparr>Cell.i = a', j = c'\<rparr>" ..
  qed
qed

lemma boardInv_lookups: "boardInv b \<Longrightarrow> boardInv (lookups ps b)"
proof (induction ps arbitrary: b)
  case Nil
  then show ?case by simp
next
  case (Cons p ps)
  from Cons.IH [OF boardInv_step [OF Cons.prems, of p]] show ?case by simp
qed

lemma boardInv_unique:
  assumes "boardInv b" and "r1 < length (cellStore b)" and "r2 < length (cellStore b)"
    and "Cell.i (cellStore b ! r1) = Cell.i (cellStore b ! r2)"
    and "Cell.j (cellStore b ! r1) = Cell.j (cellStore b ! r2)"
  shows "r1 = r2"
proof -
  from boardInv_D1 [OF assms(1,2)]
  have "knownCells b (Cell.i (cellStore b ! r2), Cell.j (cellStore b ! r2)) = Some r1"
    unfolding assms(4,5) .
  with boardInv_D1 [OF assms(1,3)] have "Some r1 = Some r2" by (simp only:)
  then show ?thesis by (simp only: option.inject)
qed

lemma boardInv_result:
  assumes "boardInv b"
  shows "fst (getCellForPoint point b) < length (cellStore (snd (getCellForPoint point b))) \<and>
         cellStore (snd (getCellForPoint point b)) ! fst (getCellForPoint point b) =
           \<lparr>Cell.i = fst (cellIndex point b), j = snd (cellIndex point b)\<rparr>"
proof -
  from boardInv_step [OF assms] have inv: "boardInv (snd (getCellForPoint point b))" .
  obtain a c where ac: "cellIndex point b = (a, c)" by (cases "cellIndex point b")
  with getCellForPoint_registers [of point b]
  have "knownCells (snd (getCellForPoint point b)) (a, c) = Some (fst (getCellForPoint point b))" by simp
  from boardInv_D2 [OF inv this] ac show ?thesis by simp
qed

text \<open>
  C3. On a board reached from a new one by any lookups, a lookup of a point returns a
  reference to the record with the indices \<open>floor(lat / width)\<close> and
  \<open>floor(lng / width)\<close>; a second lookup of the same point, after any further lookups,
  returns the identical reference; and no two records of the store have the same pair
  of indices.
\<close>

theorem flyweight_identity:
  fixes b :: Board
  assumes "b = lookups ps (newBoard w)"
  shows "fst (getCellForPoint point (lookups qs (snd (getCellForPoint point b)))) =
           fst (getCellForPoint point b) \<and>
         cellStore (snd (getCellForPoint point b)) ! fst (getCellForPoint point b) =
           \<lparr>Cell.i = \<lfloor>fst point / w\<rfloor>, j = \<lfloor>snd point / w\<rfloor>\<rparr> \<and>
         (\<forall>r1 < length (cellStore b). \<forall>r2 < length (cellStore b).
            Cell.i (cellStore b ! r1) = Cell.i (cellStore b ! r2) \<and>
            Cell.j (cellStore b ! r1) = Cell.j (cellStore b ! r2) \<longrightarrow> r1 = r2)"
proof -
  have inv: "boardInv b" unfolding assms by (rule boardInv_lookups [OF boardInv_new])
  have "tileWidth (newBoard w) = w" by (simp add: newBoard_def)
  then have w: "tileWidth b = w" unfolding assms by (simp only: lookups_width)
  then have ci: "cellIndex point b = (\<lfloor>fst point / w\<rfloor>, \<lfloor>snd point / w\<rfloor>)"
    by (simp only: cellIndex_def)
  have one: "fst (getCellForPoint point (lookups qs (snd (getCellForPoint point b)))) =
           fst (getCellForPoint point b)" by (rule same_reference)
  from boardInv_result [OF inv, of point]
  have two: "cellStore (snd (getCellForPoint point b)) ! fst (getCellForPoint point b) =
           \<lparr>Cell.i = \<lfloor>fst point / w\<rfloor>, j = \<lfloor>snd point / w\<rfloor>\<rparr>"
    by (simp only: ci fst_conv snd_conv)
  have three: "\<forall>r1 < length (cellStore b). \<forall>r2 < length (cellStore b).
            Cell.i (cellStore b ! r1) = Cell.i (cellStore b ! r2) \<and>
            Cell.j (cellStore b ! r1) = Cell.j (cellStore b ! r2) \<longrightarrow> r1 = r2"
  proof (intro allI impI)
    fix r1 r2
    assume "r1 < length (cellStore b)" "r2 < length (cellStore b)"
      "Cell.i (cellStore b ! r1) = Cell.i (cellStore b ! r2) \<and>
       Cell.j (cellStore b ! r1) = Cell.j (cellStore b ! r2)"
    then show "r1 = r2" using boardInv_unique [OF inv, of r1 r2] by (elim conjE)
  qed
  from one two three show ?thesis by (intro conjI)
qed

theorem flyweight_identity_witness:
  "fst (getCellForPoint (1 / 2000, 0)
          (lookups [(7, 7)]
             (snd (getCellForPoint (1 / 2000, 0)
                     (lookups [(1 / 2, - 1 / 2), (0, 0)] (newBoard (1 / 1000))))))) =
   fst (getCellForPoint (1 / 2000, 0) (lookups [(1 / 2, - 1 / 2), (0, 0)] (newBoard (1 / 1000)))) \<and>
   fst (getCellForPoint (1 / 2000, 0) (lookups [(1 / 2, - 1 / 2), (0, 0)] (newBoard (1 / 1000)))) = 1 \<and>
   cellStore (lookups [(1 / 2, - 1 / 2), (0, 0), (1 / 2000, 0)] (newBoard (1 / 1000))) =
     [\<lparr>Cell.i = 500, j = - 500\<rparr>, \<lparr>Cell.i = 0, j = 0\<rparr>]"
proof -
  note a = flyweight_identity [OF refl, of "(1 / 2000, 0)" "[(7, 7)]"
      "[(1 / 2, - 1 / 2), (0, 0)]" "1 / 1000", THEN conjunct1]
  have b: "fst (getCellForPoint (1 / 2000, 0)
                  (lookups [(1 / 2, - 1 / 2), (0, 0)] (newBoard (1 / 1000)))) = 1" by code_simp
  have c: "cellStore (lookups [(1 / 2, - 1 / 2), (0, 0), (1 / 2000, 0)] (newBoard (1 / 1000))) =
     [\<lparr>Cell.i = 500, j = - 500\<rparr>, \<lparr>Cell.i = 0, j = 0\<rparr>]" by code_simp
  from a b c show ?thesis by (intro conjI)
qed

end
